theory Spec2Isabelle
  imports Main "HOL-Library.Signed_Division" "HOL-Library.Multiset"
begin

section \<open>The store: sorted sets with a time to live\<close>

text \<open>
  The limiter keeps, for every key, one Redis sorted set: a collection of members (strings),
  each with one score. A member occurs at most once; adding a member that is already there
  replaces its score. The set is held as an association list from member to score. A key
  may carry an expiry deadline on the clock of the store; a key whose deadline has passed
  does not exist any more. Scores, clock readings and durations are integers: the Lua
  numbers of the script are doubles, exact on every integer below \<open>2 ^ 53\<close>, which
  covers millisecond clocks.
\<close>

type_synonym zset = "(string \<times> int) list"

record zkey =
  members :: zset
  expire_at :: "int option"

type_synonym store = "string \<Rightarrow> zkey option"

text \<open>Every command looks its key up first, and the lookup drops a key whose deadline is
  before the store's clock \<open>clk\<close>.\<close>

definition expireIfNeeded :: "int \<Rightarrow> string \<Rightarrow> store \<Rightarrow> store" where
  "expireIfNeeded clk key db =
     (case db key of
        None \<Rightarrow> db
      | Some v \<Rightarrow>
          (case expire_at v of
             None \<Rightarrow> db
           | Some deadline \<Rightarrow> if deadline < clk then db(key := None) else db))"

text \<open>\<open>ZREMRANGEBYSCORE key lo hi\<close> removes the members whose score lies in the closed
  interval from \<open>lo\<close> to \<open>hi\<close> and replies with their number; a sorted set left without
  members is deleted together with its deadline.\<close>

definition in_range :: "int \<Rightarrow> int \<Rightarrow> string \<times> int \<Rightarrow> bool" where
  "in_range lo hi e = (lo \<le> snd e \<and> snd e \<le> hi)"

definition ZREMRANGEBYSCORE :: "int \<Rightarrow> string \<Rightarrow> int \<Rightarrow> int \<Rightarrow> store \<Rightarrow> int \<times> store" where
  "ZREMRANGEBYSCORE clk key lo hi db =
     (let db1 = expireIfNeeded clk key db in
      case db1 key of
        None \<Rightarrow> (0, db1)
      | Some v \<Rightarrow>
          (let keep = filter (\<lambda>e. \<not> in_range lo hi e) (members v);
               removed = int (length (members v)) - int (length keep)
           in (removed, if keep = [] then db1(key := None)
                        else db1(key \<mapsto> v\<lparr>members := keep\<rparr>))))"

text \<open>\<open>ZCARD key\<close> replies with the number of members, 0 for a key that does not exist.\<close>

definition ZCARD :: "int \<Rightarrow> string \<Rightarrow> store \<Rightarrow> int \<times> store" where
  "ZCARD clk key db =
     (let db1 = expireIfNeeded clk key db in
      case db1 key of
        None \<Rightarrow> (0, db1)
      | Some v \<Rightarrow> (int (length (members v)), db1))"

text \<open>\<open>ZADD key score member\<close> adds the member, or gives it the new score when the set has
  it already; it replies with the number of members that are new. A key that did not exist
  is created without a deadline.\<close>

definition ZADD :: "int \<Rightarrow> string \<Rightarrow> int \<Rightarrow> string \<Rightarrow> store \<Rightarrow> int \<times> store" where
  "ZADD clk key score member db =
     (let db1 = expireIfNeeded clk key db in
      case db1 key of
        None \<Rightarrow> (1, db1(key \<mapsto> \<lparr>members = [(member, score)], expire_at = None\<rparr>))
      | Some v \<Rightarrow>
          (let others = filter (\<lambda>e. fst e \<noteq> member) (members v)
           in (if member \<in> fst ` set (members v) then 0 else 1,
               db1(key \<mapsto> v\<lparr>members := (member, score) # others\<rparr>))))"

text \<open>\<open>PEXPIRE key ms\<close> sets the deadline \<open>ms\<close> milliseconds after the store's clock and
  replies 1, or replies 0 for a key that does not exist; a deadline that is not in the
  future deletes the key at once.\<close>

definition PEXPIRE :: "int \<Rightarrow> string \<Rightarrow> int \<Rightarrow> store \<Rightarrow> int \<times> store" where
  "PEXPIRE clk key ms db =
     (let db1 = expireIfNeeded clk key db in
      case db1 key of
        None \<Rightarrow> (0, db1)
      | Some v \<Rightarrow>
          (1, if clk + ms \<le> clk then db1(key := None)
              else db1(key \<mapsto> v\<lparr>expire_at := Some (clk + ms)\<rparr>)))"

section \<open>The sliding window script\<close>

text \<open>
  The script runs in the store as one unit, at the store's clock \<open>clk\<close>. \<open>KEYS[1]\<close> is
  \<open>key\<close>, \<open>ARGV[1]\<close> to \<open>ARGV[3]\<close> are the decimal numbers \<open>now\<close>, \<open>window\<close> and
  \<open>limit\<close>, and \<open>ARGV[4]\<close> is the member to add. It returns the reply and the store it
  leaves.
\<close>

definition slidingWindowScript ::
    "int \<Rightarrow> store \<Rightarrow> string \<Rightarrow> int \<Rightarrow> int \<Rightarrow> int \<Rightarrow> string \<Rightarrow> int \<times> store" where
  "slidingWindowScript clk db key now window limit argv4 =
     (let clearBefore = now - window;
          db1 = snd (ZREMRANGEBYSCORE clk key 0 clearBefore db);
          (currentCount, db2) = ZCARD clk key db1
      in if currentCount < limit then
           (let db3 = snd (ZADD clk key now argv4 db2);
                db4 = snd (PEXPIRE clk key window db3)
            in (0, db4))
         else (1, db2))"

section \<open>The limiter\<close>

text \<open>\<open>window\<close> is a \<open>time.Duration\<close>, a number of nanoseconds; \<open>Milliseconds\<close> divides
  by a million and truncates towards zero.\<close>

record RateLimiter =
  limit :: int
  window :: int

definition NewRateLimiter :: "int \<Rightarrow> int \<Rightarrow> RateLimiter" where
  "NewRateLimiter lim win = \<lparr>limit = lim, window = win\<rparr>"

definition Milliseconds :: "int \<Rightarrow> int" where
  "Milliseconds d = d sdiv 1000000"

text \<open>The verb \<open>%d\<close> of \<open>fmt.Sprintf\<close> writes an integer in decimal, with a minus sign when
  it is negative.\<close>

definition digit :: "nat \<Rightarrow> char" where
  "digit d = ''0123456789'' ! d"

fun FormatUint :: "nat \<Rightarrow> string" where
  "FormatUint n = (if n < 10 then [digit n] else FormatUint (n div 10) @ [digit (n mod 10)])"

declare FormatUint.simps [simp del]

definition FormatInt :: "int \<Rightarrow> string" where
  "FormatInt i = (if i < 0 then CHR ''-'' # FormatUint (nat (- i)) else FormatUint (nat i))"

text \<open>\<open>requestID\<close> is \<open>fmt.Sprintf("%d-%d", now, time.Now().UnixNano())\<close>; \<open>nano\<close> is the
  second reading of the clock.\<close>

definition requestID :: "int \<Rightarrow> int \<Rightarrow> string" where
  "requestID now nano = FormatInt now @ ''-'' @ FormatInt nano"

text \<open>
  One invocation of the script through the client either is evaluated and answered, or
  fails with an error: before the store evaluates it (\<open>Unreachable\<close>: no connection, the
  context cancelled, the script refused) or after (\<open>ReplyLost\<close>: the store did evaluate
  the script and the answer never arrived).
\<close>

datatype error = Transport | Cancelled | Evaluation

datatype link = Delivered | Unreachable error | ReplyLost error

definition Run ::
    "link \<Rightarrow> int \<Rightarrow> store \<Rightarrow> string \<Rightarrow> int \<Rightarrow> int \<Rightarrow> int \<Rightarrow> string \<Rightarrow> (error + int) \<times> store" where
  "Run l clk db key now win lim member =
     (case l of
        Delivered \<Rightarrow>
          (let (r, db') = slidingWindowScript clk db key now win lim member in (Inr r, db'))
      | Unreachable e \<Rightarrow> (Inl e, db)
      | ReplyLost e \<Rightarrow> (Inl e, snd (slidingWindowScript clk db key now win lim member)))"

text \<open>\<open>IsRequestAllowed\<close> reads the clock twice (\<open>now\<close> in milliseconds, \<open>nano\<close> in
  nanoseconds), runs the script and returns the decision, with the store as the call
  leaves it.\<close>

definition IsRequestAllowed ::
    "RateLimiter \<Rightarrow> link \<Rightarrow> int \<Rightarrow> store \<Rightarrow> string \<Rightarrow> int \<Rightarrow> int \<Rightarrow> bool \<times> store" where
  "IsRequestAllowed rl l clk db key now nano =
     (let win = Milliseconds (window rl);
          rid = requestID now nano
      in case Run l clk db key now win (limit rl) rid of
           (Inl err, db') \<Rightarrow> (True, db')
         | (Inr result, db') \<Rightarrow> (result = 0, db'))"

section \<open>Histories, runs and reachable stores\<close>

text \<open>The History of a key is the list of entries stored under it; \<open>history\<close> is the
  History as the store sees it at the clock \<open>clk\<close>, empty once the key has expired.\<close>

definition alive :: "int \<Rightarrow> zkey option \<Rightarrow> zkey option" where
  "alive clk vo =
     (case vo of
        None \<Rightarrow> None
      | Some v \<Rightarrow> (case expire_at v of
                     None \<Rightarrow> Some v
                   | Some deadline \<Rightarrow> if deadline < clk then None else Some v))"

definition entries_of :: "zkey option \<Rightarrow> zset" where
  "entries_of vo = (case vo of None \<Rightarrow> [] | Some v \<Rightarrow> members v)"

definition entries :: "store \<Rightarrow> string \<Rightarrow> zset" where
  "entries db key = entries_of (db key)"

definition history :: "int \<Rightarrow> store \<Rightarrow> string \<Rightarrow> zset" where
  "history clk db key = entries_of (alive clk (db key))"

definition expiry :: "store \<Rightarrow> string \<Rightarrow> int option" where
  "expiry db key = (case db key of None \<Rightarrow> None | Some v \<Rightarrow> expire_at v)"

text \<open>An entry is stale at \<open>now\<close> when the script's \<open>ZREMRANGEBYSCORE\<close> removes it: its
  score lies between 0 and \<open>now - window\<close>.\<close>

definition stale :: "int \<Rightarrow> int \<Rightarrow> string \<times> int \<Rightarrow> bool" where
  "stale now win e = in_range 0 (now - win) e"

text \<open>What each command does to the value stored under its key.\<close>

definition evicted :: "int \<Rightarrow> int \<Rightarrow> zkey option \<Rightarrow> zkey option" where
  "evicted lo hi vo =
     (case vo of
        None \<Rightarrow> None
      | Some v \<Rightarrow> (let keep = filter (\<lambda>e. \<not> in_range lo hi e) (members v)
                   in if keep = [] then None else Some (v\<lparr>members := keep\<rparr>)))"

definition added :: "int \<Rightarrow> string \<Rightarrow> zkey option \<Rightarrow> zkey option" where
  "added score member vo =
     (case vo of
        None \<Rightarrow> Some \<lparr>members = [(member, score)], expire_at = None\<rparr>
      | Some v \<Rightarrow>
          Some (v\<lparr>members := (member, score) # filter (\<lambda>e. fst e \<noteq> member) (members v)\<rparr>))"

definition expiring :: "int \<Rightarrow> int \<Rightarrow> zkey option \<Rightarrow> zkey option" where
  "expiring clk ms vo =
     (case vo of
        None \<Rightarrow> None
      | Some v \<Rightarrow> if clk + ms \<le> clk then None else Some (v\<lparr>expire_at := Some (clk + ms)\<rparr>))"

definition script_value ::
    "int \<Rightarrow> int \<Rightarrow> int \<Rightarrow> int \<Rightarrow> string \<Rightarrow> zkey option \<Rightarrow> zkey option" where
  "script_value clk now win lim m vo =
     (let v1 = evicted 0 (now - win) (alive clk vo)
      in if int (length (entries_of v1)) < lim then expiring clk win (added now m v1) else v1)"

text \<open>The stores a limiter with one policy can leave behind: it starts from the empty
  store, the script is evaluated at any clock, for any key, time and member, and the store
  may drop a key that has expired.\<close>

inductive reachable :: "int \<Rightarrow> int \<Rightarrow> store \<Rightarrow> bool" for lim win where
  fresh: "reachable lim win (\<lambda>k. None)"
| invoke: "reachable lim win db \<Longrightarrow>
           reachable lim win (snd (slidingWindowScript clk db key now win lim m))"
| expire: "reachable lim win db \<Longrightarrow> reachable lim win (expireIfNeeded clk key db)"

text \<open>The same stores, reached with clock readings that are milliseconds since the epoch:
  every \<open>now\<close> the script is given is at least 0.\<close>

inductive epoch_reachable :: "int \<Rightarrow> int \<Rightarrow> store \<Rightarrow> bool" for lim win where
  fresh: "epoch_reachable lim win (\<lambda>k. None)"
| invoke: "epoch_reachable lim win db \<Longrightarrow> 0 \<le> now \<Longrightarrow>
           epoch_reachable lim win (snd (slidingWindowScript clk db key now win lim m))"
| expire: "epoch_reachable lim win db \<Longrightarrow> epoch_reachable lim win (expireIfNeeded clk key db)"

text \<open>A run of calls on one key, each answered by the store: a call is the store's clock
  when it evaluates the script and the two clock readings of the caller. The list is the
  order in which the store evaluates them.\<close>

fun requests :: "RateLimiter \<Rightarrow> string \<Rightarrow> store \<Rightarrow> (int \<times> int \<times> int) list \<Rightarrow> bool list" where
  "requests rl key db [] = []"
| "requests rl key db ((clk, now, nano) # cs) =
     (let (ok, db') = IsRequestAllowed rl Delivered clk db key now nano
      in ok # requests rl key db' cs)"

text \<open>The calls lie within one window of \<open>w\<close> milliseconds, on the callers' clock and on
  the store's: no reading is \<open>w\<close> or more after another.\<close>

definition within :: "int \<Rightarrow> (int \<times> int \<times> int) list \<Rightarrow> bool" where
  "within w cs =
     (\<forall>c \<in> set cs. \<forall>c' \<in> set cs.
        fst c' - fst c < w \<and> fst (snd c') - fst (snd c) < w)"

definition ids :: "(int \<times> int \<times> int) list \<Rightarrow> string list" where
  "ids cs = map (\<lambda>c. requestID (fst (snd c)) (snd (snd c))) cs"

text \<open>The scenario of the limiter's own test: a limit of 3 and a window of one second, and
  three admissions on the key \<open>k\<close>, 400 milliseconds apart.\<close>

definition scenario :: store where
  "scenario =
     snd (slidingWindowScript 1800
       (snd (slidingWindowScript 1400
         (snd (slidingWindowScript 1000 (\<lambda>k. None) ''k'' 1000 1000 3 ''1000-1000000000''))
         ''k'' 1400 1000 3 ''1400-1400000000''))
       ''k'' 1800 1000 3 ''1800-1800000000'')"

text \<open>What every value stored by the script satisfies: a sorted set is never empty, it holds
  at most \<open>lim\<close> members, and no member occurs twice.\<close>

definition sound :: "int \<Rightarrow> zkey option \<Rightarrow> bool" where
  "sound lim vo =
     (case vo of
        None \<Rightarrow> True
      | Some v \<Rightarrow> members v \<noteq> [] \<and> int (length (members v)) \<le> lim \<and> distinct (map fst (members v)))"

section \<open>The commands and the script, key by key\<close>

lemma expireIfNeeded_upd: "expireIfNeeded clk key db = db(key := alive clk (db key))"
  by (auto simp: expireIfNeeded_def alive_def split: option.splits)

lemma alive_idem [simp]: "alive clk (alive clk vo) = alive clk vo"
  by (simp add: alive_def split: option.splits)

lemma alive_None [simp]: "alive clk None = None"
  by (simp add: alive_def)

lemma ZREMRANGEBYSCORE_upd:
  "snd (ZREMRANGEBYSCORE clk key lo hi db) = db(key := evicted lo hi (alive clk (db key)))"
  by (simp add: ZREMRANGEBYSCORE_def expireIfNeeded_upd evicted_def Let_def split: option.splits)

lemma alive_evicted [simp]:
  "alive clk (evicted lo hi (alive clk vo)) = evicted lo hi (alive clk vo)"
  by (simp add: alive_def evicted_def Let_def split: option.splits)

lemma entries_of_evicted:
  "entries_of (evicted lo hi vo) = filter (\<lambda>e. \<not> in_range lo hi e) (entries_of vo)"
  by (simp add: entries_of_def evicted_def Let_def split: option.splits)

lemma ZCARD_upd:
  "ZCARD clk key db =
     (int (length (entries_of (alive clk (db key)))), db(key := alive clk (db key)))"
  by (simp add: ZCARD_def expireIfNeeded_upd entries_of_def Let_def split: option.splits)

lemma ZADD_upd:
  "snd (ZADD clk key score member db) = db(key := added score member (alive clk (db key)))"
  by (simp add: ZADD_def expireIfNeeded_upd added_def Let_def split: option.splits)

lemma PEXPIRE_upd:
  "snd (PEXPIRE clk key ms db) = db(key := expiring clk ms (alive clk (db key)))"
  by (simp add: PEXPIRE_def expireIfNeeded_upd expiring_def Let_def split: option.splits)

lemma alive_added_evicted [simp]:
  "alive clk (added score member (evicted lo hi (alive clk vo))) =
     added score member (evicted lo hi (alive clk vo))"
  by (simp add: alive_def added_def evicted_def Let_def split: option.splits)

lemma script_upd:
  "slidingWindowScript clk db key now win lim m =
     (if int (length (filter (\<lambda>e. \<not> stale now win e) (history clk db key))) < lim then 0 else 1,
      db(key := script_value clk now win lim m (db key)))"
  by (simp add: slidingWindowScript_def ZREMRANGEBYSCORE_upd ZCARD_upd ZADD_upd PEXPIRE_upd
      script_value_def history_def entries_of_evicted stale_def Let_def)

lemma script_value_deny:
  "\<not> int (length (filter (\<lambda>e. \<not> stale now win e) (entries_of (alive clk vo)))) < lim \<Longrightarrow>
   script_value clk now win lim m vo = evicted 0 (now - win) (alive clk vo)"
  by (simp add: script_value_def entries_of_evicted stale_def Let_def)

lemma script_value_admit:
  "int (length (filter (\<lambda>e. \<not> stale now win e) (entries_of (alive clk vo)))) < lim \<Longrightarrow>
   script_value clk now win lim m vo =
     (if win \<le> 0 then None
      else Some \<lparr>members = (m, now) # filter (\<lambda>e. fst e \<noteq> m)
                    (filter (\<lambda>e. \<not> stale now win e) (entries_of (alive clk vo))),
                 expire_at = Some (clk + win)\<rparr>)"
  by (simp add: script_value_def entries_of_evicted stale_def Let_def)
     (auto simp: evicted_def added_def expiring_def entries_of_def Let_def filter_empty_conv
        split: option.splits)

lemma script_other:
  "k \<noteq> key \<Longrightarrow> snd (slidingWindowScript clk db key now win lim m) k = db k"
  by (simp add: script_upd)

lemma Run_other: "k \<noteq> key \<Longrightarrow> snd (Run l clk db key now win lim m) k = db k"
  by (cases l) (simp_all add: Run_def script_upd)

lemma Run_local:
  "db1 key = db2 key \<Longrightarrow>
   fst (Run l clk db1 key now win lim m) = fst (Run l clk db2 key now win lim m) \<and>
   snd (Run l clk db1 key now win lim m) key = snd (Run l clk db2 key now win lim m) key"
  by (cases l) (simp_all add: Run_def script_upd history_def)

lemma IsRequestAllowed_Run:
  "IsRequestAllowed rl l clk db key now nano =
    (case fst (Run l clk db key now (Milliseconds (window rl)) (limit rl) (requestID now nano)) of
       Inl err \<Rightarrow> True
     | Inr result \<Rightarrow> result = 0,
     snd (Run l clk db key now (Milliseconds (window rl)) (limit rl) (requestID now nano)))"
  by (cases "Run l clk db key now (Milliseconds (window rl)) (limit rl) (requestID now nano)")
     (simp add: IsRequestAllowed_def Let_def split: sum.splits)

lemma IsRequestAllowed_Delivered:
  "IsRequestAllowed rl Delivered clk db key now nano =
     (int (length (filter (\<lambda>e. \<not> stale now (Milliseconds (window rl)) e) (history clk db key)))
        < limit rl,
      db(key := script_value clk now (Milliseconds (window rl)) (limit rl) (requestID now nano)
                  (db key)))"
  by (simp add: IsRequestAllowed_def Run_def script_upd Let_def)

lemma set_entries_of_alive: "set (entries_of (alive clk vo)) \<subseteq> set (entries_of vo)"
  by (simp add: alive_def entries_of_def split: option.splits)

section \<open>Evaluating the scenario\<close>

lemmas eval_defs = script_upd script_value_def history_def entries_def entries_of_def alive_def
  evicted_def added_def expiring_def stale_def in_range_def expiry_def Let_def

lemma Milliseconds_second: "Milliseconds 1000000000 = 1000"
  by (simp add: Milliseconds_def signed_divide_int_def)

lemma scenario_k:
  "scenario ''k'' = Some \<lparr>members = [(''1800-1800000000'', 1800), (''1400-1400000000'', 1400),
       (''1000-1000000000'', 1000)], expire_at = Some 2800\<rparr>"
  by (simp add: scenario_def eval_defs)

lemma scenario_reachable: "reachable 3 1000 scenario"
  unfolding scenario_def by (intro reachable.invoke reachable.fresh)

section \<open>Fail-open\<close>

text \<open>
  C3. Whenever the invocation of the script made by \<open>IsRequestAllowed\<close> fails with an
  error, whatever the error and whatever the store holds for the key, \<open>IsRequestAllowed\<close>
  returns true; its result is a boolean and carries no error.
\<close>

theorem fail_open:
  "fst (Run l clk db key now (Milliseconds (window rl)) (limit rl) (requestID now nano)) = Inl err
   \<Longrightarrow> fst (IsRequestAllowed rl l clk db key now nano) = True"
  by (cases "Run l clk db key now (Milliseconds (window rl)) (limit rl) (requestID now nano)")
     (simp add: IsRequestAllowed_def Let_def)

text \<open>The witness: a limiter that admits nothing, on a key that holds an entry, with the
  reply lost.\<close>

theorem fail_open_witness:
  "fst (Run (ReplyLost Cancelled) 5
          ((\<lambda>k. None)(''k'' \<mapsto> \<lparr>members = [(''4-4000000'', 4)], expire_at = Some 1004\<rparr>))
          ''k'' 5
          (Milliseconds (window \<lparr>limit = 0, window = 1000000000\<rparr>))
          (limit \<lparr>limit = 0, window = 1000000000\<rparr>) (requestID 5 5000000)) = Inl Cancelled
   \<and> fst (IsRequestAllowed \<lparr>limit = 0, window = 1000000000\<rparr> (ReplyLost Cancelled) 5
          ((\<lambda>k. None)(''k'' \<mapsto> \<lparr>members = [(''4-4000000'', 4)], expire_at = Some 1004\<rparr>))
          ''k'' 5 5000000) = True"
proof -
  have h: "fst (Run (ReplyLost Cancelled) 5
          ((\<lambda>k. None)(''k'' \<mapsto> \<lparr>members = [(''4-4000000'', 4)], expire_at = Some 1004\<rparr>))
          ''k'' 5
          (Milliseconds (window \<lparr>limit = 0, window = 1000000000\<rparr>))
          (limit \<lparr>limit = 0, window = 1000000000\<rparr>) (requestID 5 5000000)) = Inl Cancelled"
    by (simp add: Run_def)
  from fail_open [OF h] h show ?thesis by simp
qed

section \<open>A limit of zero\<close>

text \<open>
  C5, as the claim states it, fails: with a limit of zero a call whose invocation fails
  returns true, by the fail-open branch.
\<close>

theorem zero_limit_counterexample:
  "fst (IsRequestAllowed \<lparr>limit = 0, window = 1000000000\<rparr> (Unreachable Transport) 1
         (\<lambda>k. None) ''k'' 1 1000000) = True"
  by (simp add: IsRequestAllowed_def Run_def)

text \<open>
  C5, amended. With a limit of zero, every call to \<open>IsRequestAllowed\<close> that the store
  answers returns false, for every key and every state of the key's History.
\<close>

theorem zero_limit:
  "limit rl = 0 \<Longrightarrow> fst (IsRequestAllowed rl Delivered clk db key now nano) = False"
  by (simp add: IsRequestAllowed_Delivered)

theorem zero_limit_witness:
  "limit \<lparr>limit = 0, window = 1000000000\<rparr> = 0 \<and>
   fst (IsRequestAllowed \<lparr>limit = 0, window = 1000000000\<rparr> Delivered 1 (\<lambda>k. None) ''k'' 1 1000000)
     = False"
  using zero_limit [of "\<lparr>limit = 0, window = 1000000000\<rparr>" 1 "\<lambda>k. None" "''k''" 1 1000000]
  by simp

section \<open>A negative limit\<close>

text \<open>
  C10. With a limit below zero the script, when the store evaluates it, does exactly what
  it does with a limit of zero: it replies 1, so the call is denied, and it inserts
  nothing: every entry of every key afterwards was there before.
\<close>

theorem negative_limit:
  "lim < 0 \<Longrightarrow>
   slidingWindowScript clk db key now win lim m = slidingWindowScript clk db key now win 0 m \<and>
   fst (slidingWindowScript clk db key now win lim m) = 1 \<and>
   (\<forall>k. set (entries (snd (slidingWindowScript clk db key now win lim m)) k)
          \<subseteq> set (entries db k)) \<and>
   fst (IsRequestAllowed \<lparr>limit = lim, window = d\<rparr> Delivered clk db key now nano) = False"
proof -
  assume neg: "lim < 0"
  have count: "\<And>xs :: zset. \<not> int (length xs) < lim" "\<And>xs :: zset. \<not> int (length xs) < 0"
    using neg by simp_all
  have val: "script_value clk now win lim m (db key) = evicted 0 (now - win) (alive clk (db key))"
    "script_value clk now win 0 m (db key) = evicted 0 (now - win) (alive clk (db key))"
    by (simp_all add: script_value_deny count)
  have sub: "set (entries_of (evicted 0 (now - win) (alive clk (db key)))) \<subseteq> set (entries_of (db key))"
    using set_entries_of_alive [of clk "db key"] by (auto simp: entries_of_evicted)
  show ?thesis
    using sub by (simp add: script_upd count val IsRequestAllowed_Delivered entries_def)
qed

theorem negative_limit_witness:
  "(-1 :: int) < 0 \<and>
   slidingWindowScript 5 (\<lambda>k. None) ''k'' 5 1000 (-1) ''5-5000000''
     = slidingWindowScript 5 (\<lambda>k. None) ''k'' 5 1000 0 ''5-5000000'' \<and>
   fst (slidingWindowScript 5 (\<lambda>k. None) ''k'' 5 1000 (-1) ''5-5000000'') = 1 \<and>
   set (entries (snd (slidingWindowScript 5 (\<lambda>k. None) ''k'' 5 1000 (-1) ''5-5000000'')) ''k'')
     \<subseteq> set (entries (\<lambda>k. None) ''k'') \<and>
   fst (IsRequestAllowed \<lparr>limit = -1, window = 1000000000\<rparr> Delivered 5 (\<lambda>k. None) ''k'' 5 5000000)
     = False"
proof -
  have h: "(-1 :: int) < 0" by simp
  from negative_limit [OF h, of 5 "\<lambda>k. None" "''k''" 5 1000 "''5-5000000''" 1000000000 5000000] h
  show ?thesis by blast
qed

section \<open>Keys are independent\<close>

text \<open>
  C8. A call on a key \<open>a\<close> leaves every other key \<open>b\<close> as it was, and the decision for a
  key \<open>b\<close> and what the call leaves under \<open>b\<close> depend only on what the store held under
  \<open>b\<close>, the policy and the inputs of the call: two stores that agree on \<open>b\<close> and differ
  anywhere else give the same decision and the same History and expiry for \<open>b\<close>.
\<close>

theorem key_isolation:
  assumes "a \<noteq> b" and "db1 b = db2 b"
  shows "snd (IsRequestAllowed rl' l' clk' db1 a now' nano') b = db1 b \<and>
         fst (IsRequestAllowed rl l clk db1 b now nano)
           = fst (IsRequestAllowed rl l clk db2 b now nano) \<and>
         snd (IsRequestAllowed rl l clk db1 b now nano) b
           = snd (IsRequestAllowed rl l clk db2 b now nano) b"
  using assms Run_local [of db1 b db2] by (simp add: IsRequestAllowed_Run Run_other)

theorem key_isolation_witness:
  "''a'' \<noteq> ''b'' \<and>
   ((\<lambda>k. None)(''a'' \<mapsto> \<lparr>members = [(''1-1000000'', 1)], expire_at = Some 1001\<rparr>)) ''b''
     = (\<lambda>k. None) ''b'' \<and>
   snd (IsRequestAllowed \<lparr>limit = 1, window = 1000000000\<rparr> Delivered 2
          ((\<lambda>k. None)(''a'' \<mapsto> \<lparr>members = [(''1-1000000'', 1)], expire_at = Some 1001\<rparr>))
          ''a'' 2 2000000) ''b''
     = ((\<lambda>k. None)(''a'' \<mapsto> \<lparr>members = [(''1-1000000'', 1)], expire_at = Some 1001\<rparr>)) ''b'' \<and>
   fst (IsRequestAllowed \<lparr>limit = 1, window = 1000000000\<rparr> Delivered 3
          ((\<lambda>k. None)(''a'' \<mapsto> \<lparr>members = [(''1-1000000'', 1)], expire_at = Some 1001\<rparr>))
          ''b'' 3 3000000)
     = fst (IsRequestAllowed \<lparr>limit = 1, window = 1000000000\<rparr> Delivered 3 (\<lambda>k. None)
          ''b'' 3 3000000) \<and>
   snd (IsRequestAllowed \<lparr>limit = 1, window = 1000000000\<rparr> Delivered 3
          ((\<lambda>k. None)(''a'' \<mapsto> \<lparr>members = [(''1-1000000'', 1)], expire_at = Some 1001\<rparr>))
          ''b'' 3 3000000) ''b''
     = snd (IsRequestAllowed \<lparr>limit = 1, window = 1000000000\<rparr> Delivered 3 (\<lambda>k. None)
          ''b'' 3 3000000) ''b''"
proof -
  have h1: "''a'' \<noteq> ''b''" by simp
  have h2: "((\<lambda>k. None)(''a'' \<mapsto> \<lparr>members = [(''1-1000000'', 1)], expire_at = Some 1001\<rparr>)) ''b''
     = (\<lambda>k. None) ''b''" by simp
  from key_isolation [of "''a''" "''b''"
      "(\<lambda>k. None)(''a'' \<mapsto> \<lparr>members = [(''1-1000000'', 1)], expire_at = Some 1001\<rparr>)"
      "\<lambda>k. None", OF h1 h2,
      of "\<lparr>limit = 1, window = 1000000000\<rparr>" Delivered 2 2 2000000
      "\<lparr>limit = 1, window = 1000000000\<rparr>" Delivered 3 3 3000000] h1 h2
  show ?thesis by blast
qed

section \<open>What the script preserves\<close>

lemma sound_None [simp]: "sound lim None"
  by (simp add: sound_def)

lemma sound_alive: "sound lim vo \<Longrightarrow> sound lim (alive clk vo)"
  by (auto simp: sound_def alive_def split: option.splits)

lemma sound_evicted: "sound lim vo \<Longrightarrow> sound lim (evicted lo hi vo)"
proof (cases vo)
  case None
  then show ?thesis by (simp add: evicted_def)
next
  case (Some v)
  assume "sound lim vo"
  with Some have len: "int (length (members v)) \<le> lim" and dist: "distinct (map fst (members v))"
    by (simp_all add: sound_def)
  have "length (filter (\<lambda>e. \<not> in_range lo hi e) (members v)) \<le> length (members v)"
    by (rule length_filter_le)
  with len have "int (length (filter (\<lambda>e. \<not> in_range lo hi e) (members v))) \<le> lim"
    by linarith
  moreover have "distinct (map fst (filter (\<lambda>e. \<not> in_range lo hi e) (members v)))"
    using dist by (rule distinct_map_filter)
  ultimately show ?thesis
    using Some by (simp add: evicted_def sound_def Let_def)
qed

lemma sound_script_value: 
  assumes "sound lim vo"
  shows "sound lim (script_value clk now win lim m vo)"
proof (cases "int (length (filter (\<lambda>e. \<not> stale now win e) (entries_of (alive clk vo)))) < lim")
  case False
  then show ?thesis
    using assms by (simp add: script_value_deny sound_evicted sound_alive)
next
  case True
  let ?kept = "filter (\<lambda>e. \<not> stale now win e) (entries_of (alive clk vo))"
  have "sound lim (alive clk vo)" using assms by (rule sound_alive)
  then have "distinct (map fst (entries_of (alive clk vo)))"
    by (simp add: sound_def entries_of_def split: option.splits)
  then have "distinct (map fst ?kept)" by (rule distinct_map_filter)
  then have d: "distinct (map fst (filter (\<lambda>e. fst e \<noteq> m) ?kept))" by (rule distinct_map_filter)
  have "length (filter (\<lambda>e. fst e \<noteq> m) ?kept) \<le> length ?kept" by (rule length_filter_le)
  with True have l: "int (length (filter (\<lambda>e. fst e \<noteq> m) ?kept)) + 1 \<le> lim" by linarith
  have n: "m \<notin> fst ` set (filter (\<lambda>e. fst e \<noteq> m) ?kept)" by auto
  show ?thesis
    using d l n by (simp add: script_value_admit [OF True] sound_def del: filter_filter)
qed

lemma reachable_sound: "reachable lim win db \<Longrightarrow> sound lim (db key)"
proof (induction arbitrary: key rule: reachable.induct)
  case fresh
  show ?case by simp
next
  case (invoke db clk k now m)
  then show ?case by (simp add: script_upd sound_script_value)
next
  case (expire db clk k)
  then show ?case by (simp add: expireIfNeeded_upd sound_alive)
qed

section \<open>The bound on the History\<close>

text \<open>
  C2. In every store reached from the empty store by evaluations of the script under one
  policy with a limit of at least zero, every key holds at most \<open>limit\<close> entries, so at
  most \<open>limit\<close> entries with a timestamp of \<open>now - window\<close> or later, at every
  instant \<open>now\<close>. The reached stores are closed under further evaluations, so no
  evaluation leaves a store that breaks the bound.
\<close>

theorem window_bound:
  assumes "reachable lim win db" and "0 \<le> lim"
  shows "int (length (filter (\<lambda>e. now - win \<le> snd e) (entries db key))) \<le> lim"
proof -
  have "sound lim (db key)" using assms(1) by (rule reachable_sound)
  then have "int (length (entries db key)) \<le> lim"
    using assms(2) by (simp add: sound_def entries_def entries_of_def split: option.splits)
  moreover have "length (filter (\<lambda>e. now - win \<le> snd e) (entries db key)) \<le> length (entries db key)"
    by (rule length_filter_le)
  ultimately show ?thesis by linarith
qed


theorem window_bound_witness:
  "reachable 3 1000 scenario \<and> (0::int) \<le> 3 \<and>
   int (length (filter (\<lambda>e. 1900 - 1000 \<le> snd e) (entries scenario ''k''))) \<le> 3"
proof -
  have r: "reachable 3 1000 scenario" by (rule scenario_reachable)
  have h: "(0::int) \<le> 3" by simp
  from window_bound [OF r h, of 1900 "''k''"] r h show ?thesis by blast
qed

lemma filter_all_of_length:
  "length xs \<le> length (filter P xs) \<Longrightarrow> filter P xs = xs"
proof (rule ccontr)
  assume le: "length xs \<le> length (filter P xs)" and ne: "filter P xs \<noteq> xs"
  from ne obtain x where "x \<in> set xs" "\<not> P x" by (auto simp: filter_id_conv)
  then have "length (filter P xs) < length xs" by (rule length_filter_less)
  with le show False by simp
qed

lemma denied_sound_unchanged:
  assumes s: "sound lim vo"
    and d: "\<not> int (length (filter (\<lambda>e. \<not> stale now win e) (entries_of (alive clk vo)))) < lim"
  shows "script_value clk now win lim m vo = vo"
proof (cases vo)
  case None
  with d show ?thesis by (simp add: script_value_def evicted_def entries_of_def Let_def)
next
  case (Some v)
  with s have ne: "members v \<noteq> []" and len: "int (length (members v)) \<le> lim"
    by (simp_all add: sound_def)
  have live: "alive clk vo = Some v"
  proof (rule ccontr)
    assume "alive clk vo \<noteq> Some v"
    with Some have "alive clk vo = None" by (auto simp: alive_def split: option.splits if_splits)
    with d have "lim \<le> 0" by (simp add: entries_of_def)
    with len ne show False by (cases "members v") simp_all
  qed
  from d live len have "length (members v) \<le> length (filter (\<lambda>e. \<not> stale now win e) (members v))"
    by (simp add: entries_of_def)
  then have "filter (\<lambda>e. \<not> stale now win e) (members v) = members v"
    by (rule filter_all_of_length)
  then have ev: "evicted 0 (now - win) (Some v) = Some v"
    using ne by (simp add: evicted_def stale_def Let_def)
  have "script_value clk now win lim m vo = evicted 0 (now - win) (alive clk vo)"
    using d by (rule script_value_deny)
  also have "\<dots> = Some v" using live ev by simp
  finally show ?thesis using Some by simp
qed

lemma expiry_evicted:
  "entries_of (evicted lo hi (alive clk vo)) \<noteq> [] \<Longrightarrow>
   (case evicted lo hi (alive clk vo) of None \<Rightarrow> None | Some v \<Rightarrow> expire_at v)
     = (case vo of None \<Rightarrow> None | Some v \<Rightarrow> expire_at v)"
  by (auto simp: evicted_def alive_def entries_of_def Let_def split: option.splits if_splits)

section \<open>A denied invocation\<close>

text \<open>
  C4, as the claim states it, fails: the eviction runs before the count, so a denied
  invocation can change the History. A limiter with a limit of 2 admits two calls at 0 and
  50; a limiter with a limit of 1 and the same window of 60 then denies a call at 70, and
  the entry of the first call is gone.
\<close>

theorem denied_frame_counterexample:
  "fst (slidingWindowScript 70
          (snd (slidingWindowScript 50
             (snd (slidingWindowScript 0 (\<lambda>k. None) ''k'' 0 60 2 ''0-0''))
             ''k'' 50 60 2 ''50-50000000''))
          ''k'' 70 60 1 ''70-70000000'') = 1 \<and>
   entries (snd (slidingWindowScript 50
             (snd (slidingWindowScript 0 (\<lambda>k. None) ''k'' 0 60 2 ''0-0''))
             ''k'' 50 60 2 ''50-50000000'')) ''k''
     = [(''50-50000000'', 50), (''0-0'', 0)] \<and>
   entries (snd (slidingWindowScript 70
          (snd (slidingWindowScript 50
             (snd (slidingWindowScript 0 (\<lambda>k. None) ''k'' 0 60 2 ''0-0''))
             ''k'' 50 60 2 ''50-50000000''))
          ''k'' 70 60 1 ''70-70000000'')) ''k''
     = [(''50-50000000'', 50)]"
  by (simp add: eval_defs)

text \<open>
  C4, amended. When the script finds the count at or above the limit it replies 1, inserts
  nothing and does not touch the expiry; the eviction of its first step has run before the
  count. After a denied invocation the store is the store \<open>ZREMRANGEBYSCORE\<close> left: the
  History of the key is its History before the invocation, as the store saw it, without
  the stale entries, and the expiry is what it was while entries remain. In a store
  reached from the empty store under the same limit and window a denied invocation
  changes nothing at all.
\<close>

theorem denied_frame:
  assumes "fst (slidingWindowScript clk db key now win lim m) = 1"
  shows "snd (slidingWindowScript clk db key now win lim m)
           = snd (ZREMRANGEBYSCORE clk key 0 (now - win) db) \<and>
         entries (snd (slidingWindowScript clk db key now win lim m)) key
           = filter (\<lambda>e. \<not> stale now win e) (history clk db key) \<and>
         (entries (snd (slidingWindowScript clk db key now win lim m)) key \<noteq> [] \<longrightarrow>
            expiry (snd (slidingWindowScript clk db key now win lim m)) key = expiry db key) \<and>
         (reachable lim win db \<longrightarrow> snd (slidingWindowScript clk db key now win lim m) = db)"
proof -
  from assms have d:
    "\<not> int (length (filter (\<lambda>e. \<not> stale now win e) (entries_of (alive clk (db key))))) < lim"
    by (simp add: script_upd history_def split: if_splits)
  have v: "script_value clk now win lim m (db key) = evicted 0 (now - win) (alive clk (db key))"
    using d by (rule script_value_deny)
  have c1: "snd (slidingWindowScript clk db key now win lim m)
           = snd (ZREMRANGEBYSCORE clk key 0 (now - win) db)"
    by (simp add: script_upd v ZREMRANGEBYSCORE_upd)
  have c2: "entries (snd (slidingWindowScript clk db key now win lim m)) key
           = filter (\<lambda>e. \<not> stale now win e) (history clk db key)"
    by (simp add: script_upd v entries_def history_def entries_of_evicted stale_def)
  have c3: "entries (snd (slidingWindowScript clk db key now win lim m)) key \<noteq> [] \<longrightarrow>
            expiry (snd (slidingWindowScript clk db key now win lim m)) key = expiry db key"
    using expiry_evicted [of 0 "now - win" clk "db key"]
    by (simp add: script_upd v entries_def expiry_def)
  have c4: "reachable lim win db \<longrightarrow> snd (slidingWindowScript clk db key now win lim m) = db"
  proof
    assume "reachable lim win db"
    then have "sound lim (db key)" by (rule reachable_sound)
    then have "script_value clk now win lim m (db key) = db key"
      using d by (rule denied_sound_unchanged)
    then show "snd (slidingWindowScript clk db key now win lim m) = db"
      by (simp add: script_upd)
  qed
  from c1 c2 c3 c4 show ?thesis by blast
qed

theorem denied_frame_witness:
  "fst (slidingWindowScript 1900 scenario ''k'' 1900 1000 3 ''1900-1900000000'') = 1 \<and>
   snd (slidingWindowScript 1900 scenario ''k'' 1900 1000 3 ''1900-1900000000'')
     = snd (ZREMRANGEBYSCORE 1900 ''k'' 0 (1900 - 1000) scenario) \<and>
   entries (snd (slidingWindowScript 1900 scenario ''k'' 1900 1000 3 ''1900-1900000000'')) ''k''
     = filter (\<lambda>e. \<not> stale 1900 1000 e) (history 1900 scenario ''k'') \<and>
   entries (snd (slidingWindowScript 1900 scenario ''k'' 1900 1000 3 ''1900-1900000000'')) ''k''
     \<noteq> [] \<and>
   expiry (snd (slidingWindowScript 1900 scenario ''k'' 1900 1000 3 ''1900-1900000000'')) ''k''
     = expiry scenario ''k'' \<and>
   reachable 3 1000 scenario \<and>
   snd (slidingWindowScript 1900 scenario ''k'' 1900 1000 3 ''1900-1900000000'') = scenario"
proof -
  have d: "fst (slidingWindowScript 1900 scenario ''k'' 1900 1000 3 ''1900-1900000000'') = 1"
    by (simp add: scenario_k eval_defs)
  have r: "reachable 3 1000 scenario" by (rule scenario_reachable)
  have n: "entries (snd (slidingWindowScript 1900 scenario ''k'' 1900 1000 3
             ''1900-1900000000'')) ''k'' \<noteq> []"
    by (simp add: scenario_k eval_defs)
  from denied_frame [OF d] d r n show ?thesis by blast
qed

section \<open>The window slides\<close>

text \<open>The range the script removes starts at 0: an entry whose timestamp is at least 0 and
  at most \<open>now - window\<close> is gone after an evaluation at \<open>now\<close>, the reply counts
  only the entries outside that range, and in a store reached under the policy of the
  limiter the call is admitted.\<close>

lemma stale_entry_leaves:
  assumes "e \<in> set (entries db key)" and "0 \<le> snd e"
    and "snd e \<le> now - Milliseconds (window rl)"
  shows "e \<notin> set (entries (snd (slidingWindowScript clk db key now
                 (Milliseconds (window rl)) (limit rl) m)) key) \<and>
         fst (slidingWindowScript clk db key now (Milliseconds (window rl)) (limit rl) m)
           = (if int (length (filter (\<lambda>x. \<not> (0 \<le> snd x \<and> snd x \<le> now - Milliseconds (window rl)))
                 (history clk db key))) < limit rl then 0 else 1) \<and>
         (reachable (limit rl) (Milliseconds (window rl)) db \<longrightarrow>
            fst (IsRequestAllowed rl Delivered clk db key now nano) = True)"
proof -
  let ?w = "Milliseconds (window rl)"
  let ?kept = "filter (\<lambda>x. \<not> stale now ?w x) (entries_of (alive clk (db key)))"
  have st: "stale now ?w e" using assms by (simp add: stale_def in_range_def)
  have c1: "e \<notin> set (entries (snd (slidingWindowScript clk db key now ?w (limit rl) m)) key)"
  proof (cases "int (length ?kept) < limit rl")
    case False
    then show ?thesis
      using st by (simp add: script_upd entries_def script_value_deny entries_of_evicted stale_def)
  next
    case True
    show ?thesis
    proof (cases "?w \<le> 0")
      case True
      then show ?thesis
        by (simp add: script_upd entries_def script_value_admit [OF \<open>int (length ?kept) < limit rl\<close>]
            entries_of_def)
    next
      case False
      with assms(3) have "e \<noteq> (m, now)" by auto
      then show ?thesis
        using st False
        by (simp add: script_upd entries_def script_value_admit [OF True] entries_of_def)
    qed
  qed
  have c2: "fst (slidingWindowScript clk db key now ?w (limit rl) m)
           = (if int (length (filter (\<lambda>x. \<not> (0 \<le> snd x \<and> snd x \<le> now - ?w))
                 (history clk db key))) < limit rl then 0 else 1)"
    by (simp add: script_upd stale_def in_range_def)
  have c3: "reachable (limit rl) ?w db \<longrightarrow> fst (IsRequestAllowed rl Delivered clk db key now nano) = True"
  proof
    assume "reachable (limit rl) ?w db"
    then have s: "sound (limit rl) (db key)" by (rule reachable_sound)
    from assms(1) obtain v where v: "db key = Some v" and ev: "e \<in> set (members v)"
      by (cases "db key") (simp_all add: entries_def entries_of_def)
    from s v have len: "int (length (members v)) \<le> limit rl" by (simp add: sound_def)
    have "length ?kept < length (members v)"
    proof (cases "alive clk (db key)")
      case None
      then show ?thesis using ev by (cases "members v") (simp_all add: entries_of_def)
    next
      case (Some v')
      with v have "v' = v" by (auto simp: alive_def split: option.splits if_splits)
      with Some have "?kept = filter (\<lambda>x. \<not> stale now ?w x) (members v)"
        by (simp add: entries_of_def)
      moreover have "length (filter (\<lambda>x. \<not> stale now ?w x) (members v)) < length (members v)"
        using ev st by (intro length_filter_less [of e]) simp_all
      ultimately show ?thesis by simp
    qed
    with len have "int (length ?kept) < limit rl" by linarith
    then show "fst (IsRequestAllowed rl Delivered clk db key now nano) = True"
      by (simp add: IsRequestAllowed_Delivered history_def)
  qed
  from c1 c2 c3 show ?thesis by blast
qed

text \<open>With clock readings that are milliseconds since the epoch no entry has a timestamp
  below 0.\<close>

lemma epoch_reachable_reachable: "epoch_reachable lim win db \<Longrightarrow> reachable lim win db"
  by (induction rule: epoch_reachable.induct) (auto intro: reachable.intros)

lemma set_entries_of_script_value:
  "set (entries_of (script_value clk now win lim m vo)) \<subseteq> insert (m, now) (set (entries_of vo))"
proof (cases "int (length (filter (\<lambda>e. \<not> stale now win e) (entries_of (alive clk vo)))) < lim")
  case True
  show ?thesis
    using set_entries_of_alive [of clk vo]
    by (auto simp: script_value_admit [OF True] entries_of_def)
next
  case False
  show ?thesis
    using set_entries_of_alive [of clk vo]
    by (auto simp: script_value_deny [OF False] entries_of_evicted)
qed

lemma epoch_entries_nonneg:
  "epoch_reachable lim win db \<Longrightarrow> e \<in> set (entries db key) \<Longrightarrow> 0 \<le> snd e"
proof (induction arbitrary: key e rule: epoch_reachable.induct)
  case fresh
  then show ?case by (simp add: entries_def entries_of_def)
next
  case (invoke db now clk k m)
  show ?case
  proof (cases "key = k")
    case True
    with invoke.prems have "e \<in> set (entries_of (script_value clk now win lim m (db k)))"
      by (simp add: script_upd entries_def)
    with set_entries_of_script_value [of clk now win lim m "db k"]
    have "e = (m, now) \<or> e \<in> set (entries db k)" by (auto simp: entries_def)
    then show ?thesis using invoke.hyps(2) invoke.IH [of e k] by auto
  next
    case False
    with invoke.prems have "e \<in> set (entries db key)" by (simp add: script_upd entries_def)
    then show ?thesis by (rule invoke.IH)
  qed
next
  case (expire db clk k)
  show ?case
  proof (cases "key = k")
    case True
    with expire.prems have "e \<in> set (entries_of (alive clk (db k)))"
      by (simp add: expireIfNeeded_upd entries_def)
    with set_entries_of_alive [of clk "db k"] have "e \<in> set (entries db k)"
      by (auto simp: entries_def)
    then show ?thesis by (rule expire.IH)
  next
    case False
    with expire.prems have "e \<in> set (entries db key)" by (simp add: expireIfNeeded_upd entries_def)
    then show ?thesis by (rule expire.IH)
  qed
qed

lemma scenario_epoch_reachable: "epoch_reachable 3 1000 scenario"
  unfolding scenario_def by (intro epoch_reachable.invoke epoch_reachable.fresh) simp_all

text \<open>
  C6. In a store reached from the empty store under the policy of the limiter, on a clock
  that reads milliseconds since the epoch, an evaluation of the script at \<open>now\<close>
  evicts every entry of the key whose timestamp is \<open>now - window\<close> or earlier, the
  entry exactly at \<open>now - window\<close> included; the reply counts only the entries after
  \<open>now - window\<close>; and a call made a full window or more after an admission is
  admitted, whatever the other entries of the key are.
\<close>

theorem window_sliding:
  assumes "epoch_reachable (limit rl) (Milliseconds (window rl)) db"
    and "e \<in> set (entries db key)"
    and "snd e \<le> now - Milliseconds (window rl)"
  shows "e \<notin> set (entries (snd (slidingWindowScript clk db key now
                 (Milliseconds (window rl)) (limit rl) m)) key) \<and>
         fst (slidingWindowScript clk db key now (Milliseconds (window rl)) (limit rl) m)
           = (if int (length (filter (\<lambda>x. \<not> snd x \<le> now - Milliseconds (window rl))
                 (history clk db key))) < limit rl then 0 else 1) \<and>
         fst (IsRequestAllowed rl Delivered clk db key now nano) = True"
proof -
  let ?w = "Milliseconds (window rl)"
  have nonneg: "0 \<le> snd e" using assms(1,2) by (rule epoch_entries_nonneg)
  have r: "reachable (limit rl) ?w db" using assms(1) by (rule epoch_reachable_reachable)
  note old = stale_entry_leaves [OF assms(2) nonneg assms(3), of clk m nano]
  have "\<And>x. x \<in> set (history clk db key) \<Longrightarrow> 0 \<le> snd x"
  proof -
    fix x assume "x \<in> set (history clk db key)"
    with set_entries_of_alive [of clk "db key"] have "x \<in> set (entries db key)"
      by (auto simp: history_def entries_def)
    with assms(1) show "0 \<le> snd x" by (rule epoch_entries_nonneg)
  qed
  then have "filter (\<lambda>x. \<not> (0 \<le> snd x \<and> snd x \<le> now - ?w)) (history clk db key)
           = filter (\<lambda>x. \<not> snd x \<le> now - ?w) (history clk db key)"
    by (intro filter_cong) auto
  with old r show ?thesis by simp
qed

text \<open>The witness is the scenario: the call comes exactly one window after the first of
  three admissions, the other two still within their window.\<close>

theorem window_sliding_witness:
  "epoch_reachable (limit \<lparr>limit = 3, window = 1000000000\<rparr>)
     (Milliseconds (window \<lparr>limit = 3, window = 1000000000\<rparr>)) scenario \<and>
   (''1000-1000000000'', 1000) \<in> set (entries scenario ''k'') \<and>
   snd (''1000-1000000000'', 1000::int)
     \<le> 2000 - Milliseconds (window \<lparr>limit = 3, window = 1000000000\<rparr>) \<and>
   (''1000-1000000000'', 1000) \<notin> set (entries (snd (slidingWindowScript 2000 scenario ''k'' 2000
        (Milliseconds (window \<lparr>limit = 3, window = 1000000000\<rparr>))
        (limit \<lparr>limit = 3, window = 1000000000\<rparr>) ''2000-2000000000'')) ''k'') \<and>
   fst (slidingWindowScript 2000 scenario ''k'' 2000
        (Milliseconds (window \<lparr>limit = 3, window = 1000000000\<rparr>))
        (limit \<lparr>limit = 3, window = 1000000000\<rparr>) ''2000-2000000000'') = 0 \<and>
   fst (IsRequestAllowed \<lparr>limit = 3, window = 1000000000\<rparr> Delivered 2000 scenario ''k''
     2000 2000000000) = True"
proof -
  have r: "epoch_reachable (limit \<lparr>limit = 3, window = 1000000000\<rparr>)
     (Milliseconds (window \<lparr>limit = 3, window = 1000000000\<rparr>)) scenario"
    using scenario_epoch_reachable by (simp add: Milliseconds_second)
  have p1: "(''1000-1000000000'', 1000) \<in> set (entries scenario ''k'')"
    by (simp add: scenario_k entries_def entries_of_def)
  have p2: "snd (''1000-1000000000'', 1000::int)
     \<le> 2000 - Milliseconds (window \<lparr>limit = 3, window = 1000000000\<rparr>)"
    by (simp add: Milliseconds_second)
  have c: "int (length (filter (\<lambda>x. \<not> snd x \<le> 2000 - Milliseconds (window \<lparr>limit = 3, window = 1000000000\<rparr>))
                 (history 2000 scenario ''k''))) < limit \<lparr>limit = 3, window = 1000000000\<rparr>"
    by (simp add: Milliseconds_second history_def scenario_k alive_def entries_of_def)
  from window_sliding [OF r p1 p2, of 2000 "''2000-2000000000''" 2000000000] r p1 p2 c
  show ?thesis by simp
qed

section \<open>Runs of calls on a fresh key\<close>

lemmas run_defs = IsRequestAllowed_Delivered script_upd script_value_def history_def entries_def
  entries_of_def alive_def evicted_def added_def expiring_def stale_def in_range_def Let_def
  Milliseconds_def signed_divide_int_def requestID_def FormatInt_def FormatUint.simps digit_def

lemma alive_evicted_same:
  "alive clk vo = vo \<Longrightarrow> alive clk (evicted lo hi vo) = evicted lo hi vo"
  by (auto simp: alive_def evicted_def Let_def split: option.splits if_splits)

lemma within_Cons: "within w (c # cs) \<Longrightarrow> within w cs"
  by (simp add: within_def)

lemma within_positive: "within w (c # cs) \<Longrightarrow> 0 < w"
  by (auto simp: within_def)

lemma requests_run:
  assumes "within w cs" and "distinct (ids cs)" and "w = Milliseconds (window rl)"
    and "\<forall>c \<in> set cs. alive (fst c) (db key) = db key"
    and "\<forall>e \<in> set (entries db key). \<forall>c \<in> set cs.
           fst e \<noteq> requestID (fst (snd c)) (snd (snd c)) \<and> \<not> stale (fst (snd c)) w e"
  shows "requests rl key db cs =
           replicate (min (nat (limit rl - int (length (entries db key)))) (length cs)) True @
           replicate (length cs - nat (limit rl - int (length (entries db key)))) False"
  using assms
proof (induction cs arbitrary: db)
  case Nil
  show ?case by simp
next
  case (Cons c cs)
  obtain clk now nano where c: "c = (clk, now, nano)" by (cases c) auto
  let ?rid = "requestID now nano"
  let ?es = "entries db key"
  let ?v = "script_value clk now w (limit rl) ?rid (db key)"
  let ?db = "db(key := ?v)"
  have w: "w = Milliseconds (window rl)" by fact
  have pos: "0 < w" using Cons.prems(1) by (rule within_positive)
  have live: "alive clk (db key) = db key" using Cons.prems(4) c by simp
  have hist: "history clk db key = ?es" by (simp add: history_def entries_def live)
  have "\<forall>e \<in> set ?es. fst e \<noteq> ?rid \<and> \<not> stale now w e" using Cons.prems(5) c by simp
  then have fresh_id: "filter (\<lambda>e. fst e \<noteq> ?rid) ?es = ?es"
    and none_stale: "filter (\<lambda>e. \<not> stale now w e) ?es = ?es"
    by (simp_all add: filter_id_conv)
  have call: "IsRequestAllowed rl Delivered clk db key now nano = (int (length ?es) < limit rl, ?db)"
    by (simp add: IsRequestAllowed_Delivered w [symmetric] hist none_stale)
  have step: "requests rl key db (c # cs) = (int (length ?es) < limit rl) # requests rl key ?db cs"
    by (simp add: c call)
  have p1: "within w cs" using Cons.prems(1) by (rule within_Cons)
  have p2: "distinct (ids cs)" using Cons.prems(2) by (simp add: ids_def)
  show ?case
  proof (cases "int (length ?es) < limit rl")
    case True
    have kept: "int (length (filter (\<lambda>e. \<not> stale now w e) (entries_of (alive clk (db key))))) < limit rl"
      using True none_stale by (simp add: live entries_def)
    have v: "?v = Some \<lparr>members = (?rid, now) # ?es, expire_at = Some (clk + w)\<rparr>"
      using pos fresh_id none_stale by (simp add: script_value_admit [OF kept] live entries_def)
    have es': "entries ?db key = (?rid, now) # ?es" by (simp add: entries_def entries_of_def v)
    have p4: "\<forall>c' \<in> set cs. alive (fst c') (?db key) = ?db key"
    proof
      fix c' assume "c' \<in> set cs"
      with Cons.prems(1) c have "fst c' - clk < w" by (auto simp: within_def)
      then show "alive (fst c') (?db key) = ?db key" by (simp add: v alive_def)
    qed
    have p5: "\<forall>e \<in> set (entries ?db key). \<forall>c' \<in> set cs.
           fst e \<noteq> requestID (fst (snd c')) (snd (snd c')) \<and> \<not> stale (fst (snd c')) w e"
    proof (intro ballI)
      fix e c' assume e: "e \<in> set (entries ?db key)" and c': "c' \<in> set cs"
      show "fst e \<noteq> requestID (fst (snd c')) (snd (snd c')) \<and> \<not> stale (fst (snd c')) w e"
      proof (cases "e = (?rid, now)")
        case True
        from c' have "requestID (fst (snd c')) (snd (snd c')) \<in> set (ids cs)"
          by (auto simp: ids_def)
        moreover from Cons.prems(2) c have "?rid \<notin> set (ids cs)" by (simp add: ids_def)
        ultimately have "?rid \<noteq> requestID (fst (snd c')) (snd (snd c'))" by auto
        moreover from Cons.prems(1) c c' have "fst (snd c') - now < w" by (auto simp: within_def)
        ultimately show ?thesis using True by (simp add: stale_def in_range_def)
      next
        case False
        with e have "e \<in> set ?es" by (simp add: es')
        with Cons.prems(5) c' show ?thesis by simp
      qed
    qed
    have "requests rl key ?db cs =
           replicate (min (nat (limit rl - int (length (entries ?db key)))) (length cs)) True @
           replicate (length cs - nat (limit rl - int (length (entries ?db key)))) False"
      using p1 p2 w p4 p5 by (rule Cons.IH)
    moreover have "nat (limit rl - int (length ?es)) = Suc (nat (limit rl - int (length (entries ?db key))))"
      using True by (simp add: es')
    ultimately show ?thesis using True by (simp add: step)
  next
    case False
    have kept: "\<not> int (length (filter (\<lambda>e. \<not> stale now w e) (entries_of (alive clk (db key))))) < limit rl"
      using False none_stale by (simp add: live entries_def)
    have v: "?v = evicted 0 (now - w) (db key)"
      by (simp add: script_value_deny [OF kept] live)
    have es': "entries ?db key = ?es"
      using none_stale by (simp add: entries_def v entries_of_evicted stale_def)
    have p4: "\<forall>c' \<in> set cs. alive (fst c') (?db key) = ?db key"
      using Cons.prems(4) by (simp add: v alive_evicted_same)
    have p5: "\<forall>e \<in> set (entries ?db key). \<forall>c' \<in> set cs.
           fst e \<noteq> requestID (fst (snd c')) (snd (snd c')) \<and> \<not> stale (fst (snd c')) w e"
      using Cons.prems(5) unfolding es' by simp
    have "requests rl key ?db cs =
           replicate (min (nat (limit rl - int (length (entries ?db key)))) (length cs)) True @
           replicate (length cs - nat (limit rl - int (length (entries ?db key)))) False"
      using p1 p2 w p4 p5 by (rule Cons.IH)
    moreover have "nat (limit rl - int (length ?es)) = 0" using False by simp
    ultimately show ?thesis using False by (simp add: step es' replicate_app_Cons_same)
  qed
qed

section \<open>The quota boundary\<close>

text \<open>
  C1, as the claim states it, fails: the script works in whole milliseconds, and
  \<open>Milliseconds\<close> truncates the window. With a limit of 1 and a window of 1.5
  milliseconds the second call, one millisecond after the first and so within the window,
  is admitted: the window the script sees is 1 millisecond, and the entry of the first
  call is stale.
\<close>

theorem quota_boundary_counterexample:
  "requests \<lparr>limit = 1, window = 1500000\<rparr> ''k'' (\<lambda>k. None) [(0, 0, 0), (1, 1, 1000000)]
     = [True, True]"
  by (simp add: run_defs)

text \<open>
  C1, amended. For a limiter with a limit \<open>N\<close> of at least zero and a window of
  \<open>W\<close> whole milliseconds (\<open>W\<close> is \<open>Milliseconds\<close> of the window), on a key
  the store does not hold, with every call answered by the store: when no call's
  millisecond reading is \<open>W\<close> or more after another call's, on the caller's clock
  and on the store's, and the request ids of the calls differ from each other, each of
  the first \<open>N\<close> calls returns true and call \<open>N + 1\<close> returns false.
\<close>

theorem quota_boundary:
  assumes "db key = None" and "0 \<le> limit rl" and "length cs = nat (limit rl) + 1"
    and "within (Milliseconds (window rl)) cs" and "distinct (ids cs)"
  shows "requests rl key db cs = replicate (nat (limit rl)) True @ [False]"
proof -
  have "requests rl key db cs =
           replicate (min (nat (limit rl - int (length (entries db key)))) (length cs)) True @
           replicate (length cs - nat (limit rl - int (length (entries db key)))) False"
    using assms(4,5) by (rule requests_run) (simp_all add: assms(1) entries_def entries_of_def)
  then show ?thesis
    using assms(1,3) by (simp add: entries_def entries_of_def)
qed

text \<open>The witness is the scenario of the limiter's test: a limit of 3, a window of one
  second, and four calls within 900 milliseconds.\<close>

theorem quota_boundary_witness:
  "(\<lambda>k. None) ''k'' = (None :: zkey option) \<and>
   0 \<le> limit \<lparr>limit = 3, window = 1000000000\<rparr> \<and>
   length ([(1000, 1000, 1000000000), (1400, 1400, 1400000000), (1800, 1800, 1800000000),
       (1900, 1900, 1900000000)] :: (int \<times> int \<times> int) list)
     = nat (limit \<lparr>limit = 3, window = 1000000000\<rparr>) + 1 \<and>
   within (Milliseconds (window \<lparr>limit = 3, window = 1000000000\<rparr>))
     [(1000, 1000, 1000000000), (1400, 1400, 1400000000), (1800, 1800, 1800000000),
       (1900, 1900, 1900000000)] \<and>
   distinct (ids [(1000, 1000, 1000000000), (1400, 1400, 1400000000), (1800, 1800, 1800000000),
       (1900, 1900, 1900000000)]) \<and>
   requests \<lparr>limit = 3, window = 1000000000\<rparr> ''k'' (\<lambda>k. None)
     [(1000, 1000, 1000000000), (1400, 1400, 1400000000), (1800, 1800, 1800000000),
       (1900, 1900, 1900000000)]
     = replicate (nat (limit \<lparr>limit = 3, window = 1000000000\<rparr>)) True @ [False]"
proof -
  let ?cs = "[(1000, 1000, 1000000000), (1400, 1400, 1400000000), (1800, 1800, 1800000000),
       (1900, 1900, 1900000000 :: int)] :: (int \<times> int \<times> int) list"
  let ?rl = "\<lparr>limit = 3, window = 1000000000\<rparr>"
  have p1: "(\<lambda>k. None) ''k'' = (None :: zkey option)" by simp
  have p2: "0 \<le> limit ?rl" by simp
  have p3: "length ?cs = nat (limit ?rl) + 1" by simp
  have p4: "within (Milliseconds (window ?rl)) ?cs"
    by (simp add: within_def Milliseconds_def signed_divide_int_def)
  have p5: "distinct (ids ?cs)"
    by (simp add: ids_def requestID_def FormatInt_def FormatUint.simps digit_def)
  from quota_boundary [OF p1 p2 p3 p4 p5] p1 p2 p3 p4 p5 show ?thesis by blast
qed

section \<open>Calls in any order\<close>

text \<open>
  C9, as the claim states it, fails: a window below one millisecond is a window of 0 to
  the script, \<open>PEXPIRE\<close> with 0 deletes the key at once, and with a limit of 1 two
  calls at the same instant are both admitted.
\<close>

theorem atomic_admissions_counterexample:
  "requests \<lparr>limit = 1, window = 500000\<rparr> ''k'' (\<lambda>k. None) [(0, 0, 0), (0, 0, 1)] = [True, True]"
  by (simp add: run_defs)

text \<open>
  C9, amended. The store evaluates the script as one unit, so calls that race reach it in
  some order, one after the other. For more than \<open>N\<close> calls on a key the store does
  not hold, under a limit \<open>N\<close> of at least zero, all answered, with no millisecond
  reading \<open>W\<close> or more after another and request ids that differ from each other:
  in whatever order \<open>cs'\<close> the store evaluates the calls \<open>cs\<close>, exactly \<open>N\<close>
  return true and all the others return false.
\<close>

theorem atomic_admissions:
  assumes "db key = None" and "0 \<le> limit rl" and "nat (limit rl) < length cs"
    and "within (Milliseconds (window rl)) cs" and "distinct (ids cs)"
    and "mset cs' = mset cs"
  shows "length (filter (\<lambda>ok. ok) (requests rl key db cs')) = nat (limit rl) \<and>
         length (filter (\<lambda>ok. \<not> ok) (requests rl key db cs')) = length cs - nat (limit rl)"
proof -
  have s: "set cs' = set cs" using assms(6) by (rule mset_eq_setD)
  have l: "length cs' = length cs" using assms(6) by (rule mset_eq_length)
  have w: "within (Milliseconds (window rl)) cs'" using assms(4) by (simp add: within_def s)
  have "mset (ids cs') = mset (ids cs)" using assms(6) by (simp add: ids_def)
  then have "distinct (ids cs') = distinct (ids cs)" by (rule mset_eq_imp_distinct_iff)
  then have d: "distinct (ids cs')" using assms(5) by simp
  have "requests rl key db cs' =
           replicate (min (nat (limit rl - int (length (entries db key)))) (length cs')) True @
           replicate (length cs' - nat (limit rl - int (length (entries db key)))) False"
    using w d by (rule requests_run) (simp_all add: assms(1) entries_def entries_of_def)
  then show ?thesis
    using assms(1,3) l by (simp add: entries_def entries_of_def)
qed

theorem atomic_admissions_witness:
  "(\<lambda>k. None) ''k'' = (None :: zkey option) \<and>
   0 \<le> limit \<lparr>limit = 2, window = 60000000000\<rparr> \<and>
   nat (limit \<lparr>limit = 2, window = 60000000000\<rparr>)
     < length ([(7, 5, 5000100), (7, 5, 5000200), (8, 5, 5000300), (8, 6, 6000000)]
         :: (int \<times> int \<times> int) list) \<and>
   within (Milliseconds (window \<lparr>limit = 2, window = 60000000000\<rparr>))
     [(7, 5, 5000100), (7, 5, 5000200), (8, 5, 5000300), (8, 6, 6000000)] \<and>
   distinct (ids [(7, 5, 5000100), (7, 5, 5000200), (8, 5, 5000300), (8, 6, 6000000)]) \<and>
   mset ([(8, 5, 5000300), (7, 5, 5000100), (8, 6, 6000000), (7, 5, 5000200)]
         :: (int \<times> int \<times> int) list)
     = mset [(7, 5, 5000100), (7, 5, 5000200), (8, 5, 5000300), (8, 6, 6000000)] \<and>
   length (filter (\<lambda>ok. ok) (requests \<lparr>limit = 2, window = 60000000000\<rparr> ''k'' (\<lambda>k. None)
     [(8, 5, 5000300), (7, 5, 5000100), (8, 6, 6000000), (7, 5, 5000200)]))
     = nat (limit \<lparr>limit = 2, window = 60000000000\<rparr>) \<and>
   length (filter (\<lambda>ok. \<not> ok) (requests \<lparr>limit = 2, window = 60000000000\<rparr> ''k'' (\<lambda>k. None)
     [(8, 5, 5000300), (7, 5, 5000100), (8, 6, 6000000), (7, 5, 5000200)]))
     = length ([(7, 5, 5000100), (7, 5, 5000200), (8, 5, 5000300), (8, 6, 6000000)]
         :: (int \<times> int \<times> int) list)
       - nat (limit \<lparr>limit = 2, window = 60000000000\<rparr>)"
proof -
  let ?cs = "[(7, 5, 5000100), (7, 5, 5000200), (8, 5, 5000300), (8, 6, 6000000)]
     :: (int \<times> int \<times> int) list"
  let ?cs' = "[(8, 5, 5000300), (7, 5, 5000100), (8, 6, 6000000), (7, 5, 5000200)]
     :: (int \<times> int \<times> int) list"
  let ?rl = "\<lparr>limit = 2, window = 60000000000\<rparr>"
  have p1: "(\<lambda>k. None) ''k'' = (None :: zkey option)" by simp
  have p2: "0 \<le> limit ?rl" by simp
  have p3: "nat (limit ?rl) < length ?cs" by simp
  have p4: "within (Milliseconds (window ?rl)) ?cs"
    by (simp add: within_def Milliseconds_def signed_divide_int_def)
  have p5: "distinct (ids ?cs)"
    by (simp add: ids_def requestID_def FormatInt_def FormatUint.simps digit_def)
  have p6: "mset ?cs' = mset ?cs" by (simp add: add_mset_commute)
  from atomic_admissions [OF p1 p2 p3 p4 p5 p6] p1 p2 p3 p4 p5 p6 show ?thesis by blast
qed

section \<open>Request ids\<close>

text \<open>The request id is a function of the two clock readings, and two calls have the same
  id exactly when both readings are the same.\<close>

lemma digit_cases:
  "d < 10 \<Longrightarrow> d = 0 \<or> d = 1 \<or> d = 2 \<or> d = 3 \<or> d = 4 \<or> d = 5 \<or> d = 6 \<or> d = 7 \<or> d = 8 \<or> d = (9::nat)"
  by arith

lemma digit_not_minus: "d < 10 \<Longrightarrow> digit d \<noteq> CHR ''-''"
  using digit_cases [of d] by (auto simp: digit_def)

lemma digit_inj: "a < 10 \<Longrightarrow> b < 10 \<Longrightarrow> digit a = digit b \<Longrightarrow> a = b"
  using digit_cases [of a] digit_cases [of b] by (auto simp: digit_def)

lemma FormatUint_nonempty: "FormatUint n \<noteq> []"
  by (subst FormatUint.simps) simp

lemma FormatUint_no_minus: "CHR ''-'' \<notin> set (FormatUint n)"
proof (induction n rule: FormatUint.induct)
  case (1 n)
  show ?case
  proof (cases "n < 10")
    case True
    then show ?thesis using digit_not_minus [of n] by (subst FormatUint.simps) auto
  next
    case False
    have "n mod 10 < 10" by simp
    then have "digit (n mod 10) \<noteq> CHR ''-''" by (rule digit_not_minus)
    with False "1.IH" show ?thesis by (subst FormatUint.simps) auto
  qed
qed

lemma FormatUint_inj: "FormatUint a = FormatUint b \<Longrightarrow> a = b"
proof (induction a arbitrary: b rule: FormatUint.induct)
  case (1 a)
  show ?case
  proof (cases "a < 10")
    case a: True
    show ?thesis
    proof (cases "b < 10")
      case True
      with a "1.prems" show ?thesis
        by (simp add: FormatUint.simps [of a] FormatUint.simps [of b] digit_inj)
    next
      case False
      with a "1.prems" FormatUint_nonempty [of "b div 10"] show ?thesis
        by (simp add: FormatUint.simps [of a] FormatUint.simps [of b])
    qed
  next
    case a: False
    show ?thesis
    proof (cases "b < 10")
      case True
      with a "1.prems" FormatUint_nonempty [of "a div 10"] show ?thesis
        by (simp add: FormatUint.simps [of a] FormatUint.simps [of b])
    next
      case False
      with a "1.prems" have eq: "FormatUint (a div 10) = FormatUint (b div 10)"
        and d: "digit (a mod 10) = digit (b mod 10)"
        by (simp_all add: FormatUint.simps [of a] FormatUint.simps [of b])
      from a eq have "a div 10 = b div 10" by (rule "1.IH")
      moreover from d have "a mod 10 = b mod 10" by (intro digit_inj) simp_all
      ultimately show ?thesis by (metis div_mult_mod_eq)
    qed
  qed
qed

lemma FormatUint_hd: "\<exists>c cs. FormatUint n = c # cs \<and> c \<noteq> CHR ''-''"
  using FormatUint_nonempty [of n] FormatUint_no_minus [of n] by (cases "FormatUint n") auto

lemma split_at_first:
  "x \<notin> set xs \<Longrightarrow> x \<notin> set xs' \<Longrightarrow> xs @ x # ys = xs' @ x # ys' \<Longrightarrow> xs = xs' \<and> ys = ys'"
proof (induction xs arbitrary: xs')
  case Nil
  then show ?case by (cases xs') auto
next
  case (Cons a t)
  then show ?case by (cases xs') auto
qed

lemma requestID_inj:
  "(requestID now nano = requestID now' nano') = (now = now' \<and> nano = nano')"
proof
  assume eq: "requestID now nano = requestID now' nano'"
  have split: "\<And>i j r r'. FormatInt i @ CHR ''-'' # r = FormatInt j @ CHR ''-'' # r' \<Longrightarrow> i = j \<and> r = r'"
  proof -
    fix i j :: int and r r' :: string
    assume e: "FormatInt i @ CHR ''-'' # r = FormatInt j @ CHR ''-'' # r'"
    obtain c cs where ci: "FormatUint (nat (- i)) = c # cs" "c \<noteq> CHR ''-''"
      using FormatUint_hd by blast
    obtain c' cs' where ci': "FormatUint (nat i) = c' # cs'" "c' \<noteq> CHR ''-''"
      using FormatUint_hd by blast
    obtain d ds where cj: "FormatUint (nat (- j)) = d # ds" "d \<noteq> CHR ''-''"
      using FormatUint_hd by blast
    obtain d' ds' where cj': "FormatUint (nat j) = d' # ds'" "d' \<noteq> CHR ''-''"
      using FormatUint_hd by blast
    have sign: "(i < 0) = (j < 0)"
      using e ci' cj' by (auto simp: FormatInt_def split: if_splits)
    show "i = j \<and> r = r'"
    proof (cases "i < 0")
      case True
      with sign have j: "j < 0" by simp
      from e True j have "FormatUint (nat (- i)) @ CHR ''-'' # r = FormatUint (nat (- j)) @ CHR ''-'' # r'"
        by (simp add: FormatInt_def)
      then have "FormatUint (nat (- i)) = FormatUint (nat (- j)) \<and> r = r'"
        by (rule split_at_first [OF FormatUint_no_minus FormatUint_no_minus])
      then have "nat (- i) = nat (- j)" and "r = r'" by (auto dest: FormatUint_inj)
      with True j show ?thesis by simp
    next
      case False
      with sign have j: "\<not> j < 0" by simp
      from e False j have "FormatUint (nat i) @ CHR ''-'' # r = FormatUint (nat j) @ CHR ''-'' # r'"
        by (simp add: FormatInt_def)
      then have "FormatUint (nat i) = FormatUint (nat j) \<and> r = r'"
        by (rule split_at_first [OF FormatUint_no_minus FormatUint_no_minus])
      then have "nat i = nat j" and "r = r'" by (auto dest: FormatUint_inj)
      with False j show ?thesis by simp
    qed
  qed
  from eq have "FormatInt now @ CHR ''-'' # FormatInt nano = FormatInt now' @ CHR ''-'' # FormatInt nano'"
    by (simp add: requestID_def)
  then have n: "now = now'" and r: "FormatInt nano = FormatInt nano'" using split by blast+
  from r have "FormatInt nano @ CHR ''-'' # [] = FormatInt nano' @ CHR ''-'' # []" by simp
  then have "nano = nano'" using split by blast
  with n show "now = now' \<and> nano = nano'" by simp
next
  assume "now = now' \<and> nano = nano'"
  then show "requestID now nano = requestID now' nano'" by simp
qed

lemma distinct_ids: "distinct (ids cs) = distinct (map snd cs)"
proof -
  have "ids cs = map (\<lambda>p. requestID (fst p) (snd p)) (map snd cs)" by (simp add: ids_def)
  moreover have "inj_on (\<lambda>p. requestID (fst p) (snd p)) (set (map snd cs))"
    by (auto simp: inj_on_def requestID_inj)
  ultimately show ?thesis by (simp only: distinct_map) simp
qed

text \<open>
  C7. Two calls that read the same millisecond and the same nanosecond generate the same
  request id. With a limit of 2 both are admitted, the second \<open>ZADD\<close> replaces the
  member of the first, the History holds one entry for two admissions, and a third call
  in the same window is admitted as well.
\<close>

theorem request_id_collision:
  "requestID 5 5000000 = ''5-5000000'' \<and>
   requests \<lparr>limit = 2, window = 1000000000\<rparr> ''k'' (\<lambda>k. None)
     [(5, 5, 5000000), (5, 5, 5000000), (6, 6, 6000000)] = [True, True, True] \<and>
   entries (snd (IsRequestAllowed \<lparr>limit = 2, window = 1000000000\<rparr> Delivered 5
     (snd (IsRequestAllowed \<lparr>limit = 2, window = 1000000000\<rparr> Delivered 5 (\<lambda>k. None)
        ''k'' 5 5000000)) ''k'' 5 5000000)) ''k'' = [(''5-5000000'', 5)]"
  by (simp add: run_defs)

end
